theory Spec2Isabelle
  imports Main "HOL-Library.AList"
begin

section \<open>connect-session-firestore: the session store over a document collection\<close>

text \<open>
  The development embeds \<^verbatim>\<open>lib/connect-session-firestore.js\<close>: the key cleaner
  \<^verbatim>\<open>cleanRef\<close> and the six store operations \<^verbatim>\<open>get\<close>, \<^verbatim>\<open>set\<close>,
  \<^verbatim>\<open>destroy\<close>, \<^verbatim>\<open>clear\<close>, \<^verbatim>\<open>reap\<close> and \<^verbatim>\<open>touch\<close>, each a chain of
  promise handlers over a Firestore collection that ends in the completion callback.
\<close>

subsection \<open>JavaScript values\<close>

text \<open>
  Session payloads are JavaScript objects (JSDoc: \<^verbatim>\<open>@param {Object} sess\<close>): an object is
  the list of its own properties in insertion order. Numbers are the whole numbers: the
  clock \<^verbatim>\<open>Date.now()\<close> is a whole number of milliseconds, and so is a cookie's
  \<^verbatim>\<open>maxAge\<close> as far as the model goes. A sum of whole numbers is the sum of the code
  while it stays within \<open>2 ^ 53\<close> on either side of zero; beyond, the code holds the
  nearest double (\<open>to_double\<close> below). Numbers with a fractional part, \<^verbatim>\<open>NaN\<close> and
  the infinities are outside the model.
\<close>

datatype jsval =
    JUndefined
  | JNull
  | JBool bool
  | JNum int
  | JStr string
  | JArr "jsval list"
  | JObj "(string \<times> jsval) list"

type_synonym jsobj = "(string \<times> jsval) list"

text \<open>\<^verbatim>\<open>o.name\<close> on an object: the property's value, \<^verbatim>\<open>undefined\<close> when there is none.\<close>

definition get_prop :: "jsobj \<Rightarrow> string \<Rightarrow> jsval" where
  "get_prop ob name = (case map_of ob name of None \<Rightarrow> JUndefined | Some v \<Rightarrow> v)"

text \<open>
  \<^verbatim>\<open>v.name\<close> on a value that is neither \<^verbatim>\<open>undefined\<close> nor \<^verbatim>\<open>null\<close> (the source reads
  \<^verbatim>\<open>session.cookie.maxAge\<close> only behind \<^verbatim>\<open>session.cookie &&\<close>): a primitive or an
  array has no property of the names read here.
\<close>

fun member :: "jsval \<Rightarrow> string \<Rightarrow> jsval" where
  "member (JObj ob) name = get_prop ob name"
| "member _ name = JUndefined"

text \<open>The values that count as true in \<^verbatim>\<open>a && b\<close>.\<close>

fun truthy :: "jsval \<Rightarrow> bool" where
  "truthy JUndefined = False"
| "truthy JNull = False"
| "truthy (JBool b) = b"
| "truthy (JNum n) = (n \<noteq> 0)"
| "truthy (JStr s) = (s \<noteq> [])"
| "truthy (JArr vs) = True"
| "truthy (JObj ob) = True"

fun typeof :: "jsval \<Rightarrow> string" where
  "typeof JUndefined = ''undefined''"
| "typeof JNull = ''object''"
| "typeof (JBool b) = ''boolean''"
| "typeof (JNum n) = ''number''"
| "typeof (JStr s) = ''string''"
| "typeof (JArr vs) = ''object''"
| "typeof (JObj ob) = ''object''"

text \<open>
  \<^verbatim>\<open>now + v\<close> where \<^verbatim>\<open>typeof v === 'number'\<close> has been checked; the other equations
  are never reached by the source.
\<close>

fun plus_num :: "int \<Rightarrow> jsval \<Rightarrow> int" where
  "plus_num n (JNum m) = n + m"
| "plus_num n _ = n"

text \<open>
  The double nearest to a whole number, as an addition of the code rounds its result:
  whole numbers up to \<open>2 ^ 53\<close> in magnitude are doubles; a larger one of \<open>k\<close> binary
  digits lies between two neighbouring multiples of \<open>2 ^ (k - 53)\<close>, which are the doubles
  there, and goes to the nearer, or in the middle to the one whose 53-digit significand is
  even. (Magnitudes from \<open>2 ^ 1024\<close> on, which the code turns into an infinity, are not
  told apart.)
\<close>

fun bit_length :: "nat \<Rightarrow> nat" where
  "bit_length n = (if n = 0 then 0 else Suc (bit_length (n div 2)))"

declare bit_length.simps [simp del]

definition to_double :: "int \<Rightarrow> int" where
  "to_double n =
     (if \<bar>n\<bar> \<le> 2 ^ 53 then n
      else
        let a = \<bar>n\<bar>;
            q = 2 ^ (bit_length (nat a) - 53);
            d = a div q;
            r = a mod q;
            up = (q < 2 * r \<or> (q = 2 * r \<and> odd d))
        in sgn n * ((if up then d + 1 else d) * q))"

text \<open>
  \<^verbatim>\<open>Object.assign(target, source)\<close>: every own property of the source is written to the
  target, in the source's order; a property the target has keeps its place and takes the
  new value, a new one goes last.
\<close>

definition object_assign :: "jsobj \<Rightarrow> jsobj \<Rightarrow> jsobj" where
  "object_assign target source = foldl (\<lambda>acc (k, v). AList.update k v acc) target source"

subsection \<open>The key cleaner\<close>

text \<open>
  \<^verbatim>\<open>str.replace(/\.|\$|#|\[|\]|\//g, '_')\<close>: the pattern matches one character at a
  time, and with the flag \<^verbatim>\<open>g\<close> the scan goes on after each match to the end of the
  string.
\<close>

definition disallowed :: "char set" where
  "disallowed = {CHR ''.'', CHR ''$'', CHR ''#'', CHR ''['', CHR '']'', CHR ''/''}"

fun cleanRef :: "string \<Rightarrow> string" where
  "cleanRef [] = []"
| "cleanRef (c # cs) = (if c \<in> disallowed then CHR ''_'' # cleanRef cs else c # cleanRef cs)"

subsection \<open>Documents, promises and the completion callback\<close>

text \<open>Six hours in milliseconds: \<^verbatim>\<open>const reapInterval = 21600000\<close>.\<close>

definition reapInterval :: int where
  "reapInterval = 21600000"

text \<open>
  The document \<^verbatim>\<open>set\<close> writes: \<^verbatim>\<open>{ expires: expires, session: session, type:
  'connect-session' }\<close>.
\<close>

record doc =
  expires :: int
  session :: jsobj
  type :: string

text \<open>A settled promise: fulfilled with a value or rejected with a reason.\<close>

datatype 'a outcome = Fulfilled 'a | Rejected jsval

text \<open>
  The completion callback \<^verbatim>\<open>fn\<close> is any function of the caller. It is only ever run
  as a promise handler, or inside one that returns its result, so what counts of an
  invocation is what the handler's promise settles to: given how many invocations came
  before and the arguments of this one, \<open>Fulfilled v\<close> (it returns \<open>v\<close>, or a promise
  that is fulfilled with \<open>v\<close>) or \<open>Rejected e\<close> (it throws \<open>e\<close>, or returns a promise
  that is rejected with \<open>e\<close>).
\<close>

type_synonym callback = "nat \<Rightarrow> jsval list \<Rightarrow> jsval outcome"

text \<open>
  The state an operation runs in: the documents of the sessions collection by key, what
  the backend does with the requests to come (\<open>Some e\<close>: the request is rejected with
  \<open>e\<close> and has no effect; \<open>None\<close>, and every request once the list is used up: it
  succeeds), the value a successful write or delete resolves with, and the argument lists
  of the callback invocations made so far, oldest first.

  The collection holds documents of the shape the store writes. Every request settles,
  and an operation runs from its call to its last callback with no other operation in
  between: interleavings of concurrent operations are outside the model.
\<close>

record world =
  docs :: "(string \<times> doc) list"
  faults :: "jsval option list"
  ack :: jsval
  calls :: "jsval list list"

definition request :: "world \<Rightarrow> jsval option \<times> world" where
  "request w = (case faults w of [] \<Rightarrow> (None, w) | f # fs \<Rightarrow> (f, w\<lparr>faults := fs\<rparr>))"

text \<open>
  Modelled from the spec: the Firestore client behind \<^verbatim>\<open>this.db\<close> is not part of the
  repository; section 4.3 (RecordStore) gives its five requests. Each resolves to a
  success value or to an error. \<^verbatim>\<open>read(key)\<close>, here \<^verbatim>\<open>doc(key).get()\<close>: the record if
  present, else not found (\<^verbatim>\<open>snapshot.exists\<close> is false).
\<close>

definition doc_get :: "string \<Rightarrow> world \<Rightarrow> doc option outcome \<times> world" where
  "doc_get key w =
     (case request w of
        (Some e, w') \<Rightarrow> (Rejected e, w')
      | (None, w') \<Rightarrow> (Fulfilled (map_of (docs w') key), w'))"

text \<open>
  Modelled from the spec: \<^verbatim>\<open>write(key, record)\<close>, here \<^verbatim>\<open>doc(key).set(data)\<close>, which the
  Firestore client provides: replaces any existing record for the key.
\<close>

definition doc_set :: "string \<Rightarrow> doc \<Rightarrow> world \<Rightarrow> jsval outcome \<times> world" where
  "doc_set key data w =
     (case request w of
        (Some e, w') \<Rightarrow> (Rejected e, w')
      | (None, w') \<Rightarrow> (Fulfilled (ack w'), w'\<lparr>docs := AList.update key data (docs w')\<rparr>))"

text \<open>
  Modelled from the spec: \<^verbatim>\<open>remove(key)\<close>, here \<^verbatim>\<open>doc(key).delete()\<close> and
  \<^verbatim>\<open>snapshot.ref.delete()\<close>, which the Firestore client provides: deletes the record for
  the key and succeeds even if it is absent.
\<close>

definition doc_delete :: "string \<Rightarrow> world \<Rightarrow> jsval outcome \<times> world" where
  "doc_delete key w =
     (case request w of
        (Some e, w') \<Rightarrow> (Rejected e, w')
      | (None, w') \<Rightarrow> (Fulfilled (ack w'), w'\<lparr>docs := AList.delete key (docs w')\<rparr>))"

text \<open>
  Modelled from the spec: \<^verbatim>\<open>listAll()\<close>, here \<^verbatim>\<open>collection(...).get()\<close>, which the
  Firestore client provides: the finite sequence of all (key, record) pairs persisted.
\<close>

definition collection_get :: "world \<Rightarrow> (string \<times> doc) list outcome \<times> world" where
  "collection_get w =
     (case request w of
        (Some e, w') \<Rightarrow> (Rejected e, w')
      | (None, w') \<Rightarrow> (Fulfilled (docs w'), w'))"

text \<open>
  Modelled from the spec: \<^verbatim>\<open>listExpired(now)\<close>, here
  \<^verbatim>\<open>collection(...).where('expires', '<', now).get()\<close>, which the Firestore client
  provides: the finite sequence of all records whose expiry is below \<open>now\<close>.
\<close>

definition collection_where_expires_lt ::
    "int \<Rightarrow> world \<Rightarrow> (string \<times> doc) list outcome \<times> world" where
  "collection_where_expires_lt now w =
     (case request w of
        (Some e, w') \<Rightarrow> (Rejected e, w')
      | (None, w') \<Rightarrow> (Fulfilled (filter (\<lambda>(key, d). expires d < now) (docs w')), w'))"

text \<open>
  \<^verbatim>\<open>p.then(f)\<close>: a fulfilled \<open>p\<close> runs the handler on its value and settles as the
  handler does (its return fulfils, its throw rejects, a promise it returns is adopted);
  a rejected \<open>p\<close> passes the reason on. \<^verbatim>\<open>p.catch(g)\<close> is the mirror image.
\<close>

definition pthen ::
    "'a outcome \<times> world \<Rightarrow> ('a \<Rightarrow> world \<Rightarrow> 'b outcome \<times> world) \<Rightarrow> 'b outcome \<times> world" where
  "pthen p f = (case p of (Fulfilled v, w) \<Rightarrow> f v w | (Rejected e, w) \<Rightarrow> (Rejected e, w))"

definition pcatch ::
    "'a outcome \<times> world \<Rightarrow> (jsval \<Rightarrow> world \<Rightarrow> 'a outcome \<times> world) \<Rightarrow> 'a outcome \<times> world" where
  "pcatch p g = (case p of (Fulfilled v, w) \<Rightarrow> (Fulfilled v, w) | (Rejected e, w) \<Rightarrow> g e w)"

text \<open>\<^verbatim>\<open>Promise.all\<close>: the list of all values, or the first rejection.\<close>

fun promise_all :: "'a outcome list \<Rightarrow> 'a list outcome" where
  "promise_all [] = Fulfilled []"
| "promise_all (Rejected e # ps) = Rejected e"
| "promise_all (Fulfilled v # ps) =
     (case promise_all ps of Fulfilled vs \<Rightarrow> Fulfilled (v # vs) | Rejected e \<Rightarrow> Rejected e)"

text \<open>Running the callback on an argument list, as a promise handler does.\<close>

definition invoke :: "callback \<Rightarrow> jsval list \<Rightarrow> world \<Rightarrow> jsval outcome \<times> world" where
  "invoke fn args w = (fn (length (calls w)) args, w\<lparr>calls := calls w @ [args]\<rparr>)"

text \<open>
  What a callback \<^verbatim>\<open>function (err, session)\<close> reads as its \<open>i\<close>-th parameter: a
  parameter beyond the arguments passed is \<^verbatim>\<open>undefined\<close>.
\<close>

definition cb_arg :: "jsval list \<Rightarrow> nat \<Rightarrow> jsval" where
  "cb_arg args i = (if i < length args then args ! i else JUndefined)"

text \<open>
  What a run \<open>r\<close> of an operation from the state \<open>w\<close> does with the callback: it
  invokes it, then at most \<open>k\<close> times more, and not again when the first invocation
  settles without an error, in which case the promise of the operation is fulfilled.
\<close>

abbreviation completes :: "callback \<Rightarrow> nat \<Rightarrow> world \<Rightarrow> jsval outcome \<times> world \<Rightarrow> bool" where
  "completes fn k w r \<equiv>
     \<exists>a rest. calls (snd r) = calls w @ a # rest \<and> length rest \<le> k
       \<and> (\<forall>x. fn (length (calls w)) a = Fulfilled x \<longrightarrow> rest = [] \<and> (\<exists>y. fst r = Fulfilled y))"

subsection \<open>The store operations\<close>

text \<open>
  The clock value \<open>now\<close> is what \<^verbatim>\<open>Date.now()\<close> returns where the operation reads it:
  on entry in \<^verbatim>\<open>get\<close>, \<^verbatim>\<open>set\<close> and \<^verbatim>\<open>reap\<close>, and in \<^verbatim>\<open>touch\<close> on entry of the
  \<^verbatim>\<open>set\<close> it ends in. Each operation returns the state it leaves and what its promise
  settles to.
\<close>

text \<open>\<^verbatim>\<open>doc(key).delete().then(fn).catch(fn)\<close>\<close>

definition destroy :: "string \<Rightarrow> callback \<Rightarrow> world \<Rightarrow> jsval outcome \<times> world" where
  "destroy sid fn w =
     (let key = cleanRef sid in
      pcatch (pthen (doc_delete key w) (\<lambda>v. invoke fn [v])) (\<lambda>e. invoke fn [e]))"

text \<open>
  \<^verbatim>\<open>session.cookie && typeof session.cookie.maxAge === 'number' ? now + session.cookie.maxAge
  : now + reapInterval\<close>
\<close>

definition set_expires :: "int \<Rightarrow> jsobj \<Rightarrow> int" where
  "set_expires now sess =
     (if truthy (get_prop sess ''cookie'')
         \<and> typeof (member (get_prop sess ''cookie'') ''maxAge'') = ''number''
      then plus_num now (member (get_prop sess ''cookie'') ''maxAge'')
      else now + reapInterval)"

definition set_op :: "int \<Rightarrow> string \<Rightarrow> jsobj \<Rightarrow> callback \<Rightarrow> world \<Rightarrow> jsval outcome \<times> world" where
  "set_op now sid sess fn w =
     (let key = cleanRef sid;
          data = \<lparr>expires = set_expires now sess, session = sess, type = ''connect-session''\<rparr>
      in pcatch (pthen (doc_set key data w) (\<lambda>v. invoke fn [v])) (\<lambda>e. invoke fn [e]))"

definition get :: "int \<Rightarrow> string \<Rightarrow> callback \<Rightarrow> world \<Rightarrow> jsval outcome \<times> world" where
  "get now sid fn w =
     (let key = cleanRef sid in
      pcatch
        (pthen (doc_get key w)
           (\<lambda>snapshot w'.
              case snapshot of
                None \<Rightarrow> invoke fn [] w'
              | Some d \<Rightarrow>
                  if expires d < now then destroy sid fn w'
                  else invoke fn [JNull, JObj (session d)] w'))
        (\<lambda>e. invoke fn [e]))"

text \<open>\<^verbatim>\<open>snapshots.forEach(snapshot => { remove.push(snapshot.ref.delete()); })\<close>\<close>

fun delete_each :: "(string \<times> doc) list \<Rightarrow> world \<Rightarrow> jsval outcome list \<times> world" where
  "delete_each [] w = ([], w)"
| "delete_each (snapshot # snapshots) w =
     (case doc_delete (fst snapshot) w of
        (r, w') \<Rightarrow> (case delete_each snapshots w' of (remove, w'') \<Rightarrow> (r # remove, w'')))"

text \<open>
  \<^verbatim>\<open>Promise.all(remove).then(fn).catch(fn)\<close> is not returned from the handler it is built
  in: the handler's own promise is fulfilled with \<^verbatim>\<open>undefined\<close>, and a rejection of the
  inner chain reaches nobody.
\<close>

definition remove_all ::
    "(string \<times> doc) list \<Rightarrow> callback \<Rightarrow> world \<Rightarrow> jsval outcome \<times> world" where
  "remove_all snapshots fn w =
     (case delete_each snapshots w of
        (remove, w') \<Rightarrow>
          (Fulfilled JUndefined,
           snd (pcatch (pthen (promise_all remove, w') (\<lambda>vs. invoke fn [JArr vs]))
                  (\<lambda>e. invoke fn [e]))))"

definition clear :: "callback \<Rightarrow> world \<Rightarrow> jsval outcome \<times> world" where
  "clear fn w =
     pcatch (pthen (collection_get w) (\<lambda>snapshots. remove_all snapshots fn))
       (\<lambda>e. invoke fn [e])"

definition reap :: "int \<Rightarrow> callback \<Rightarrow> world \<Rightarrow> jsval outcome \<times> world" where
  "reap now fn w =
     pcatch (pthen (collection_where_expires_lt now w) (\<lambda>snapshots. remove_all snapshots fn))
       (\<lambda>e. invoke fn [e])"

text \<open>
  \<^verbatim>\<open>Object.assign({}, snapshot.data().session, { cookie: session.cookie })\<close>, then
  \<^verbatim>\<open>this.set(sid, touched, fn)\<close>.
\<close>

definition touched :: "jsobj \<Rightarrow> jsobj \<Rightarrow> jsobj" where
  "touched stored sess =
     object_assign (object_assign [] stored) [(''cookie'', get_prop sess ''cookie'')]"

definition touch :: "int \<Rightarrow> string \<Rightarrow> jsobj \<Rightarrow> callback \<Rightarrow> world \<Rightarrow> jsval outcome \<times> world" where
  "touch now sid sess fn w =
     (let key = cleanRef sid in
      pcatch
        (pthen (doc_get key w)
           (\<lambda>snapshot w'.
              case snapshot of
                None \<Rightarrow> invoke fn [] w'
              | Some d \<Rightarrow> set_op now sid (touched (session d) sess) fn w'))
        (\<lambda>e. invoke fn [e]))"

subsection \<open>The expiry policy as the specification words it\<close>

text \<open>
  The specification's ExpiryPolicy (section 4.2), for comparison with \<open>set_expires\<close>: the
  declared lifetime is read from a nested \<^verbatim>\<open>cookie.maxAge\<close> field of the payload when
  present, and absence or a wrong type falls back to the default; the expiry is the clock
  plus the declared lifetime if that is a number, and the clock plus 21,600,000 otherwise.
\<close>

definition spec_declaredLifetime :: "jsobj \<Rightarrow> int option" where
  "spec_declaredLifetime sess =
     (case map_of sess ''cookie'' of
        Some (JObj cookie) \<Rightarrow>
          (case map_of cookie ''maxAge'' of Some (JNum m) \<Rightarrow> Some m | _ \<Rightarrow> None)
      | _ \<Rightarrow> None)"

definition spec_computeExpiry :: "int \<Rightarrow> int option \<Rightarrow> int" where
  "spec_computeExpiry now declaredLifetimeMs =
     (case declaredLifetimeMs of Some m \<Rightarrow> now + m | None \<Rightarrow> now + 21600000)"

subsection \<open>Example stores and callbacks\<close>

text \<open>An empty collection on a backend that accepts every request.\<close>

definition store0 :: world where
  "store0 = \<lparr>docs = [], faults = [], ack = JUndefined, calls = []\<rparr>"

text \<open>A callback that returns normally whatever it is given.\<close>

definition fn_ok :: callback where
  "fn_ok n args = Fulfilled JUndefined"

text \<open>The record of \<^verbatim>\<open>set(sid, {data: 1, cookie: {maxAge: 1000}})\<close> at time 1000.\<close>

definition doc1 :: doc where
  "doc1 = \<lparr>expires = 2000,
           session = [(''data'', JNum 1), (''cookie'', JObj [(''maxAge'', JNum 1000)])],
           type = ''connect-session''\<rparr>"

definition store1 :: world where
  "store1 = \<lparr>docs = [(''abc'', doc1)], faults = [], ack = JUndefined, calls = []\<rparr>"

text \<open>
  The same collection on a backend whose writes and deletes resolve with a write result,
  as \<^verbatim>\<open>firebase-admin\<close>'s do.
\<close>

definition store2 :: world where
  "store2 = \<lparr>docs = [(''abc'', doc1)], faults = [],
             ack = JObj [(''writeTime'', JNum 3000)], calls = []\<rparr>"


text \<open>A record that has expired at time 1000 and one that has not.\<close>

definition docA :: doc where
  "docA = \<lparr>expires = 999, session = [(''user'', JStr ''a'')], type = ''connect-session''\<rparr>"

definition docB :: doc where
  "docB = \<lparr>expires = 5000, session = [(''user'', JStr ''b'')], type = ''connect-session''\<rparr>"

definition storeAB :: world where
  "storeAB = \<lparr>docs = [(''A'', docA), (''B'', docB)], faults = [], ack = JUndefined, calls = []\<rparr>"

subsection \<open>Properties of the key cleaner\<close>

lemma length_cleanRef: "length (cleanRef s) = length s"
  by (induction s) simp_all

lemma nth_cleanRef:
  "i < length s \<Longrightarrow> cleanRef s ! i = (if s ! i \<in> disallowed then CHR ''_'' else s ! i)"
proof (induction s arbitrary: i)
  case Nil
  then show ?case by simp
next
  case (Cons c cs)
  then show ?case by (cases i) simp_all
qed

lemma underscore_allowed: "CHR ''_'' \<notin> disallowed"
  by (simp add: disallowed_def)

lemma set_cleanRef: "set (cleanRef s) \<inter> disallowed = {}"
  by (induction s) (simp_all add: underscore_allowed)

lemma cleanRef_id: "set s \<inter> disallowed = {} \<Longrightarrow> cleanRef s = s"
  by (induction s) auto

lemma cleanRef_idem: "cleanRef (cleanRef s) = cleanRef s"
  by (rule cleanRef_id) (rule set_cleanRef)

text \<open>
  C7. For every input string the key cleaner returns a string of the same length that
  holds \<open>_\<close> at each position where the input holds one of \<open>. $ # [ ] /\<close> and the
  input's own character at every other position, so none of the six characters is left
  in the output. The cleaner is a total function of its argument alone.
\<close>

theorem cleanRef_replaces:
  "length (cleanRef s) = length s
   \<and> (\<forall>i<length s. cleanRef s ! i = (if s ! i \<in> disallowed then CHR ''_'' else s ! i))
   \<and> (\<forall>c\<in>set (cleanRef s). c \<notin> disallowed)"
proof (intro conjI allI impI ballI)
  show "length (cleanRef s) = length s" by (rule length_cleanRef)
next
  fix i assume "i < length s"
  then show "cleanRef s ! i = (if s ! i \<in> disallowed then CHR ''_'' else s ! i)"
    by (rule nth_cleanRef)
next
  fix c assume "c \<in> set (cleanRef s)"
  with set_cleanRef [of s] show "c \<notin> disallowed" by blast
qed

theorem cleanRef_replaces_witness:
  "cleanRef ''a.b$c#d[e]f/g'' = ''a_b_c_d_e_f_g''
   \<and> length (cleanRef ''a.b$c#d[e]f/g'') = length ''a.b$c#d[e]f/g''
   \<and> (1::nat) < length ''a.b$c#d[e]f/g''
   \<and> cleanRef ''a.b$c#d[e]f/g'' ! 1 = CHR ''_''
   \<and> CHR ''_'' \<in> set (cleanRef ''a.b$c#d[e]f/g'')
   \<and> CHR ''_'' \<notin> disallowed"
  using cleanRef_replaces [of "''a.b$c#d[e]f/g''"]
  by (simp add: disallowed_def)

subsection \<open>The backend and the promise chains\<close>

lemma set_expires_spec: "set_expires now sess = spec_computeExpiry now (spec_declaredLifetime sess)"
  by (simp add: set_expires_def spec_computeExpiry_def spec_declaredLifetime_def get_prop_def
      reapInterval_def split: option.splits jsval.splits)

lemma request_ok: "faults w = [] \<Longrightarrow> request w = (None, w)"
  by (simp add: request_def)

lemma doc_get_ok: "faults w = [] \<Longrightarrow> doc_get key w = (Fulfilled (map_of (docs w) key), w)"
  by (simp add: doc_get_def request_ok)

lemma doc_set_ok:
  "faults w = [] \<Longrightarrow> doc_set key d w = (Fulfilled (ack w), w\<lparr>docs := AList.update key d (docs w)\<rparr>)"
  by (simp add: doc_set_def request_ok)

lemma doc_delete_ok:
  "faults w = [] \<Longrightarrow> doc_delete key w = (Fulfilled (ack w), w\<lparr>docs := AList.delete key (docs w)\<rparr>)"
  by (simp add: doc_delete_def request_ok)

lemma docs_invoke: "docs (snd (invoke fn args w)) = docs w"
  by (simp add: invoke_def)

lemma calls_invoke: "calls (snd (invoke fn args w)) = calls w @ [args]"
  by (simp add: invoke_def)

lemma docs_report:
  "docs (snd (pcatch (pthen p (\<lambda>v. invoke fn (f v))) (\<lambda>e. invoke fn [e]))) = docs (snd p)"
  by (cases p; cases "fst p")
     (auto simp: pcatch_def pthen_def invoke_def split: outcome.splits)

lemma calls_report:
  "calls (snd (pcatch (pthen (r, w) (\<lambda>v. invoke fn (f v))) (\<lambda>e. invoke fn [e]))) =
     calls w @ (case r of
        Fulfilled v \<Rightarrow> f v # (case fn (length (calls w)) (f v) of Fulfilled x \<Rightarrow> [] | Rejected e \<Rightarrow> [[e]])
      | Rejected e \<Rightarrow> [[e]])"
  by (auto simp: pcatch_def pthen_def invoke_def split: outcome.splits)

lemma set_op_ok:
  "faults w = [] \<Longrightarrow>
   docs (snd (set_op now sid sess fn w)) =
     AList.update (cleanRef sid)
       \<lparr>expires = set_expires now sess, session = sess, type = ''connect-session''\<rparr> (docs w)"
  by (simp add: set_op_def docs_report doc_set_ok)

lemma faults_report:
  "faults (snd (pcatch (pthen p (\<lambda>v. invoke fn (f v))) (\<lambda>e. invoke fn [e]))) = faults (snd p)"
  by (cases p; cases "fst p")
     (auto simp: pcatch_def pthen_def invoke_def split: outcome.splits)

lemma set_op_faults: "faults w = [] \<Longrightarrow> faults (snd (set_op now sid sess fn w)) = []"
  by (simp add: set_op_def faults_report doc_set_ok)

lemma update_fresh: "k \<notin> fst ` set t \<Longrightarrow> AList.update k v t = t @ [(k, v)]"
  by (induction t) auto

lemma object_assign_distinct:
  "distinct (map fst (t @ s)) \<Longrightarrow> object_assign t s = t @ s"
proof (induction s arbitrary: t)
  case Nil
  then show ?case by (simp add: object_assign_def)
next
  case (Cons p s)
  obtain k v where p: "p = (k, v)" by (cases p)
  from Cons.prems p have fresh: "k \<notin> fst ` set t" by auto
  from Cons.prems p have "distinct (map fst ((t @ [(k, v)]) @ s))" by auto
  then have "object_assign (t @ [(k, v)]) s = (t @ [(k, v)]) @ s" by (rule Cons.IH)
  with fresh p show ?case by (simp add: object_assign_def update_fresh)
qed

lemma object_assign_single: "object_assign t [(k, v)] = AList.update k v t"
  by (simp add: object_assign_def)

lemma touched_distinct:
  "distinct (map fst stored) \<Longrightarrow>
   touched stored sess = AList.update ''cookie'' (get_prop sess ''cookie'') stored"
  using object_assign_distinct [of "[]" stored]
  by (simp add: touched_def object_assign_single)

lemma touched_cookie: "map_of (touched stored sess) ''cookie'' = Some (get_prop sess ''cookie'')"
  by (simp add: touched_def object_assign_single update_conv')

lemma docs_pcatch: "docs (snd (pcatch p (\<lambda>e. invoke fn [e]))) = docs (snd p)"
  by (cases p; cases "fst p") (auto simp: pcatch_def invoke_def split: outcome.splits)

lemma touch_found:
  assumes "faults w = []" and "map_of (docs w) (cleanRef sid) = Some d"
  shows "docs (snd (touch now sid sess fn w)) =
           AList.update (cleanRef sid)
             \<lparr>expires = set_expires now (touched (session d) sess),
              session = touched (session d) sess, type = ''connect-session''\<rparr> (docs w)"
  using assms by (simp add: touch_def doc_get_ok pthen_def docs_pcatch set_op_ok)

lemma touch_missing:
  assumes "faults w = []" and "map_of (docs w) (cleanRef sid) = None"
  shows "docs (snd (touch now sid sess fn w)) = docs w"
    and "calls (snd (touch now sid sess fn w)) =
           calls w @ [] # (case fn (length (calls w)) [] of Fulfilled x \<Rightarrow> [] | Rejected e \<Rightarrow> [[e]])"
  using assms
  by (auto simp add: touch_def doc_get_ok pthen_def pcatch_def invoke_def split: outcome.splits)

lemma set_expires_no_cookie:
  "get_prop sess ''cookie'' = JUndefined \<Longrightarrow> set_expires now sess = now + reapInterval"
  by (simp add: set_expires_def)

lemma get_prop_touched: "get_prop (touched stored sess) ''cookie'' = get_prop sess ''cookie''"
  by (simp add: get_prop_def touched_cookie)

lemma get_valid:
  assumes "faults w = []" and "map_of (docs w) (cleanRef sid) = Some d" and "\<not> expires d < now"
  shows "docs (snd (get now sid fn w)) = docs w"
    and "calls (snd (get now sid fn w)) =
           calls w @ [JNull, JObj (session d)]
             # (case fn (length (calls w)) [JNull, JObj (session d)] of
                  Fulfilled x \<Rightarrow> [] | Rejected e \<Rightarrow> [[e]])"
  using assms
  by (auto simp add: get_def doc_get_ok pthen_def pcatch_def invoke_def split: outcome.splits)


subsection \<open>Writing a session: \<open>set\<close>\<close>

text \<open>
  C3. On a backend that accepts the write, \<open>set(sid, payload)\<close> leaves under the cleaned
  key exactly the record with the payload as given, the type tag \<open>connect-session\<close> and
  the expiry of the specification's policy: the clock plus \<open>payload.cookie.maxAge\<close> when
  that is a number, the clock plus 21600000 when the cookie is absent or its \<open>maxAge\<close>
  is not a number. The records under all other keys stay as they were.
\<close>

theorem set_persists:
  assumes "faults w = []"
  shows "map_of (docs (snd (set_op now sid sess fn w))) (cleanRef sid) =
           Some \<lparr>expires = spec_computeExpiry now (spec_declaredLifetime sess),
                 session = sess, type = ''connect-session''\<rparr>
         \<and> (\<forall>key. key \<noteq> cleanRef sid \<longrightarrow>
               map_of (docs (snd (set_op now sid sess fn w))) key = map_of (docs w) key)"
  using assms by (simp add: set_op_ok update_conv' set_expires_spec)

theorem set_persists_witness:
  "faults store0 = [] \<and>
   map_of (docs (snd (set_op 1000 ''a.b'' [(''user'', JStr ''x''), (''cookie'', JObj [(''maxAge'', JNum 60000)])] fn_ok store0))) ''a_b'' =
     Some \<lparr>expires = 61000, session = [(''user'', JStr ''x''), (''cookie'', JObj [(''maxAge'', JNum 60000)])], type = ''connect-session''\<rparr>
  \<and> map_of (docs (snd (set_op 1000 ''a.b'' [(''user'', JStr ''x'')] fn_ok store0))) ''a_b'' =
     Some \<lparr>expires = 21601000, session = [(''user'', JStr ''x'')], type = ''connect-session''\<rparr>
  \<and> ''zz'' \<noteq> cleanRef ''a.b''
  \<and> map_of (docs (snd (set_op 1000 ''a.b'' [(''user'', JStr ''x'')] fn_ok store0))) ''zz'' = None"
  using set_persists [of store0 1000 "''a.b''" "[(''user'', JStr ''x''), (''cookie'', JObj [(''maxAge'', JNum 60000)])]" fn_ok]
    set_persists [of store0 1000 "''a.b''" "[(''user'', JStr ''x'')]" fn_ok]
  by (simp add: store0_def spec_computeExpiry_def spec_declaredLifetime_def disallowed_def)



lemma to_double_exact: "\<bar>n\<bar> \<le> 2 ^ 53 \<Longrightarrow> to_double n = n"
  by (simp add: to_double_def)





lemma bit_length_54: "bit_length 9008961365852103 = 54"
  by (simp add: bit_length.simps)

lemma to_double_tie: "to_double 9008961365852103 = 9008961365852104"
  by (simp add: to_double_def Let_def bit_length_54)

lemma set_expires_exact:
  "\<bar>set_expires now sess\<bar> \<le> 2 ^ 53 \<Longrightarrow> to_double (set_expires now sess) = set_expires now sess"
  by (rule to_double_exact)





subsection \<open>Refreshing a session: \<open>touch\<close>\<close>

text \<open>
  C2. On a backend that accepts the requests: when a record is stored under the cleaned
  key (its payload an object, so that no property name occurs twice in it),
  \<open>touch(sid, payload)\<close> replaces it by the record of the merged payload, which is
  the stored payload with its \<open>cookie\<close> property set to the incoming payload's
  \<open>cookie\<close> and every other property as stored, and whose expiry is computed anew from
  the merged payload; when no record is stored, the collection is left as it is and the
  callback is run without arguments, as for a session that was not found.
\<close>

theorem touch_merges:
  assumes "faults w = []"
  shows "(\<forall>d. map_of (docs w) (cleanRef sid) = Some d \<and> distinct (map fst (session d)) \<longrightarrow>
            map_of (docs (snd (touch now sid sess fn w))) (cleanRef sid) =
              Some \<lparr>expires =
                      spec_computeExpiry now
                        (spec_declaredLifetime
                           (AList.update ''cookie'' (get_prop sess ''cookie'') (session d))),
                    session = AList.update ''cookie'' (get_prop sess ''cookie'') (session d),
                    type = ''connect-session''\<rparr>)
         \<and> (map_of (docs w) (cleanRef sid) = None \<longrightarrow>
              docs (snd (touch now sid sess fn w)) = docs w
              \<and> calls (snd (touch now sid sess fn w)) =
                  calls w @ [] # (case fn (length (calls w)) [] of
                                    Fulfilled x \<Rightarrow> [] | Rejected e \<Rightarrow> [[e]]))"
  using assms
  by (simp add: touch_found touch_missing touched_distinct update_conv' set_expires_spec)

theorem touch_merges_witness:
  "faults store1 = []
   \<and> map_of (docs store1) (cleanRef ''abc'') = Some doc1 \<and> distinct (map fst (session doc1))
   \<and> map_of (docs (snd (touch 3000 ''abc'' [(''cookie'', JObj [(''maxAge'', JNum 5000)])] fn_ok store1))) ''abc'' =
       Some \<lparr>expires = 8000,
             session = [(''data'', JNum 1), (''cookie'', JObj [(''maxAge'', JNum 5000)])],
             type = ''connect-session''\<rparr>
   \<and> map_of (docs store1) (cleanRef ''zzz'') = None
   \<and> docs (snd (touch 3000 ''zzz'' [(''cookie'', JObj [(''maxAge'', JNum 5000)])] fn_ok store1)) = docs store1
   \<and> calls (snd (touch 3000 ''zzz'' [(''cookie'', JObj [(''maxAge'', JNum 5000)])] fn_ok store1)) = [[]]"
  using touch_merges [of store1 "''abc''" 3000 "[(''cookie'', JObj [(''maxAge'', JNum 5000)])]" fn_ok]
    touch_merges [of store1 "''zzz''" 3000 "[(''cookie'', JObj [(''maxAge'', JNum 5000)])]" fn_ok]
  by (simp add: store1_def doc1_def fn_ok_def get_prop_def spec_computeExpiry_def
      spec_declaredLifetime_def disallowed_def)

text \<open>
  C10. When a record is stored and the incoming payload has no \<open>cookie\<close> property,
  \<open>touch\<close> writes a payload whose \<open>cookie\<close> is \<open>undefined\<close>, so a stored cookie is
  not kept, and the expiry written is the clock plus the default lifetime 21600000.
\<close>

theorem touch_without_cookie:
  assumes "faults w = []"
    and "map_of (docs w) (cleanRef sid) = Some d"
    and "map_of sess ''cookie'' = None"
  shows "map_of (docs (snd (touch now sid sess fn w))) (cleanRef sid) =
           Some \<lparr>expires = now + 21600000, session = touched (session d) sess,
                 type = ''connect-session''\<rparr>
         \<and> map_of (touched (session d) sess) ''cookie'' = Some JUndefined
         \<and> (\<forall>v. map_of (session d) ''cookie'' = Some v \<and> v \<noteq> JUndefined \<longrightarrow>
               map_of (touched (session d) sess) ''cookie'' \<noteq> map_of (session d) ''cookie'')"
proof -
  from assms(3) have undef: "get_prop sess ''cookie'' = JUndefined"
    by (simp add: get_prop_def)
  then have "get_prop (touched (session d) sess) ''cookie'' = JUndefined"
    by (simp add: get_prop_touched)
  then have "set_expires now (touched (session d) sess) = now + 21600000"
    by (simp add: set_expires_no_cookie reapInterval_def)
  with assms(1,2) undef show ?thesis
    by (auto simp add: touch_found update_conv' touched_cookie)
qed

theorem touch_without_cookie_witness:
  "faults store1 = [] \<and> map_of (docs store1) (cleanRef ''abc'') = Some doc1
   \<and> map_of [(''data'', JNum 2)] ''cookie'' = None
   \<and> map_of (docs (snd (touch 3000 ''abc'' [(''data'', JNum 2)] fn_ok store1))) ''abc'' =
       Some \<lparr>expires = 21603000, session = [(''data'', JNum 1), (''cookie'', JUndefined)],
             type = ''connect-session''\<rparr>
   \<and> map_of (session doc1) ''cookie'' = Some (JObj [(''maxAge'', JNum 1000)])"
  using touch_without_cookie [of store1 "''abc''" doc1 "[(''data'', JNum 2)]" 3000 fn_ok]
  by (simp add: store1_def doc1_def touched_def object_assign_def get_prop_def disallowed_def)

subsection \<open>Reading back: \<open>set\<close> then \<open>get\<close>\<close>

text \<open>
  C8. For a payload without a numeric \<open>cookie.maxAge\<close>, on a backend that accepts the
  requests, \<open>set(sid, payload)\<close> at time \<open>now\<close> stores the expiry \<open>now + 21600000\<close>, and
  a \<open>get(sid)\<close> that follows at a time not after that expiry leaves the collection as it
  is and runs its callback with \<open>(null, payload)\<close>.
\<close>

theorem set_get_roundtrip:
  assumes "faults w = []"
    and "spec_declaredLifetime sess = None"
    and "now' \<le> now + 21600000"
  shows "(let w1 = snd (set_op now sid sess fn w); w2 = snd (get now' sid fn' w1) in
          map_of (docs w1) (cleanRef sid) =
            Some \<lparr>expires = now + 21600000, session = sess, type = ''connect-session''\<rparr>
          \<and> docs w2 = docs w1
          \<and> calls w2 =
              calls w1 @ [JNull, JObj sess]
                # (case fn' (length (calls w1)) [JNull, JObj sess] of
                     Fulfilled x \<Rightarrow> [] | Rejected e \<Rightarrow> [[e]]))"
proof -
  let ?d = "\<lparr>expires = now + 21600000, session = sess, type = ''connect-session''\<rparr>"
  let ?w1 = "snd (set_op now sid sess fn w)"
  from assms(1,2) have stored: "map_of (docs ?w1) (cleanRef sid) = Some ?d"
    by (simp add: set_op_ok update_conv' set_expires_spec spec_computeExpiry_def)
  from assms(1) have nofault: "faults ?w1 = []" by (rule set_op_faults)
  from assms(3) have valid: "\<not> expires ?d < now'" by simp
  from get_valid [OF nofault stored valid, of fn'] stored show ?thesis
    by (simp add: Let_def)
qed

theorem set_get_roundtrip_witness:
  "faults store0 = [] \<and> spec_declaredLifetime [(''user'', JStr ''x'')] = None
   \<and> (1500::int) \<le> 1000 + 21600000
   \<and> map_of (docs (snd (set_op 1000 ''abc'' [(''user'', JStr ''x'')] fn_ok store0))) ''abc'' =
        Some \<lparr>expires = 21601000, session = [(''user'', JStr ''x'')], type = ''connect-session''\<rparr>
   \<and> calls (snd (get 1500 ''abc'' fn_ok (snd (set_op 1000 ''abc'' [(''user'', JStr ''x'')] fn_ok store0)))) =
        [[JUndefined], [JNull, JObj [(''user'', JStr ''x'')]]]"
  using set_get_roundtrip [of store0 "[(''user'', JStr ''x'')]" 1500 1000 "''abc''" fn_ok fn_ok]
  by (simp add: store0_def fn_ok_def spec_declaredLifetime_def Let_def disallowed_def
      set_op_def doc_set_def request_def pthen_def pcatch_def invoke_def
      set_expires_def get_prop_def reapInterval_def get_def doc_get_def)

subsection \<open>The session key\<close>

lemma destroy_cong: "cleanRef sid = cleanRef sid' \<Longrightarrow> destroy sid = destroy sid'"
  by (simp add: destroy_def fun_eq_iff)

lemma set_op_cong: "cleanRef sid = cleanRef sid' \<Longrightarrow> set_op now sid = set_op now sid'"
  by (simp add: set_op_def fun_eq_iff)

lemma get_cong:
  assumes "cleanRef sid = cleanRef sid'"
  shows "get now sid = get now sid'"
proof -
  from assms have d: "destroy sid = destroy sid'" by (rule destroy_cong)
  show ?thesis unfolding get_def fun_eq_iff assms d by simp
qed

lemma touch_cong:
  assumes "cleanRef sid = cleanRef sid'"
  shows "touch now sid = touch now sid'"
proof -
  from assms have d: "set_op now sid = set_op now sid'" by (rule set_op_cong)
  show ?thesis unfolding touch_def fun_eq_iff assms d by simp
qed

text \<open>
  C9. Each of \<open>get\<close>, \<open>set\<close>, \<open>destroy\<close> and \<open>touch\<close> behaves on a session id as it
  does on the cleaned id, so two ids with the same cleaned form are served alike by all
  four; \<open>a.b\<close> and \<open>a_b\<close> are such a pair and reach the same stored record.
\<close>

theorem sid_cleaned:
  "get now sid fn w = get now (cleanRef sid) fn w
   \<and> set_op now sid sess fn w = set_op now (cleanRef sid) sess fn w
   \<and> destroy sid fn w = destroy (cleanRef sid) fn w
   \<and> touch now sid sess fn w = touch now (cleanRef sid) sess fn w
   \<and> (cleanRef sid = cleanRef sid' \<longrightarrow>
        get now sid fn w = get now sid' fn w
        \<and> set_op now sid sess fn w = set_op now sid' sess fn w
        \<and> destroy sid fn w = destroy sid' fn w
        \<and> touch now sid sess fn w = touch now sid' sess fn w)"
proof -
  have c: "cleanRef sid = cleanRef (cleanRef sid)" by (simp add: cleanRef_idem)
  have "get now sid fn w = get now (cleanRef sid) fn w"
    using get_cong [OF c] by simp
  moreover have "set_op now sid sess fn w = set_op now (cleanRef sid) sess fn w"
    using set_op_cong [OF c] by simp
  moreover have "destroy sid fn w = destroy (cleanRef sid) fn w"
    using destroy_cong [OF c] by simp
  moreover have "touch now sid sess fn w = touch now (cleanRef sid) sess fn w"
    using touch_cong [OF c] by simp
  moreover have "cleanRef sid = cleanRef sid' \<longrightarrow>
        get now sid fn w = get now sid' fn w
        \<and> set_op now sid sess fn w = set_op now sid' sess fn w
        \<and> destroy sid fn w = destroy sid' fn w
        \<and> touch now sid sess fn w = touch now sid' sess fn w"
    by (simp add: get_cong [of sid sid'] set_op_cong [of sid sid'] destroy_cong [of sid sid']
        touch_cong [of sid sid'])
  ultimately show ?thesis by blast
qed

theorem sid_cleaned_witness:
  "cleanRef ''a.b'' = cleanRef ''a_b'' \<and> ''a.b'' \<noteq> ''a_b''
   \<and> get 1500 ''a.b'' fn_ok (snd (set_op 1000 ''a_b'' [(''user'', JStr ''x'')] fn_ok store0))
     = get 1500 ''a_b'' fn_ok (snd (set_op 1000 ''a_b'' [(''user'', JStr ''x'')] fn_ok store0))
   \<and> calls (snd (get 1500 ''a.b'' fn_ok (snd (set_op 1000 ''a_b'' [(''user'', JStr ''x'')] fn_ok store0))))
     = [[JUndefined], [JNull, JObj [(''user'', JStr ''x'')]]]"
  using sid_cleaned [where now = 1500 and sid = "''a.b''" and sid' = "''a_b''" and fn = fn_ok
      and w = "snd (set_op 1000 ''a_b'' [(''user'', JStr ''x'')] fn_ok store0)"]
  by (simp add: store0_def fn_ok_def disallowed_def
      set_op_def doc_set_def request_def pthen_def pcatch_def invoke_def
      set_expires_def get_prop_def reapInterval_def get_def doc_get_def)

subsection \<open>Reading an expired session: \<open>get\<close>\<close>

lemma get_missing:
  assumes "faults w = []" and "map_of (docs w) (cleanRef sid) = None"
  shows "docs (snd (get now sid fn w)) = docs w"
    and "calls (snd (get now sid fn w)) =
           calls w @ [] # (case fn (length (calls w)) [] of Fulfilled x \<Rightarrow> [] | Rejected e \<Rightarrow> [[e]])"
  using assms
  by (auto simp add: get_def doc_get_ok pthen_def pcatch_def invoke_def split: outcome.splits)

lemma destroy_ok:
  assumes "faults w = []"
  shows "docs (snd (destroy sid fn w)) = AList.delete (cleanRef sid) (docs w)"
    and "\<exists>rest. calls (snd (destroy sid fn w)) = calls w @ [ack w] # rest"
    and "fn (length (calls w)) [ack w] = Fulfilled x \<Longrightarrow>
           destroy sid fn w =
             (Fulfilled x, w\<lparr>docs := AList.delete (cleanRef sid) (docs w), calls := calls w @ [[ack w]]\<rparr>)"
proof -
  show "docs (snd (destroy sid fn w)) = AList.delete (cleanRef sid) (docs w)"
    using assms by (simp add: destroy_def docs_report doc_delete_ok)
  show "\<exists>rest. calls (snd (destroy sid fn w)) = calls w @ [ack w] # rest"
    using assms by (simp add: destroy_def doc_delete_ok calls_report)
  show "fn (length (calls w)) [ack w] = Fulfilled x \<Longrightarrow>
           destroy sid fn w =
             (Fulfilled x, w\<lparr>docs := AList.delete (cleanRef sid) (docs w), calls := calls w @ [[ack w]]\<rparr>)"
    using assms by (simp add: destroy_def doc_delete_ok pthen_def pcatch_def invoke_def)
qed

lemma calls_pcatch_prefix:
  "\<exists>rest. calls (snd (pcatch p (\<lambda>e. invoke fn [e]))) = calls (snd p) @ rest"
  by (cases p; cases "fst p") (auto simp: pcatch_def invoke_def split: outcome.splits)

lemma expired_get_unfold:
  assumes "faults w = []" and "map_of (docs w) (cleanRef sid) = Some d" and "expires d < now"
  shows "get now sid fn w = pcatch (destroy sid fn w) (\<lambda>e. invoke fn [e])"
  using assms by (simp add: get_def doc_get_ok pthen_def)

lemma get_expired_removes:
  assumes "faults w = []"
    and "map_of (docs w) (cleanRef sid) = Some d"
    and "expires d < now"
  shows "docs (snd (get now sid fn w)) = AList.delete (cleanRef sid) (docs w)"
    and "\<exists>rest. calls (snd (get now sid fn w)) = calls w @ [ack w] # rest"
proof -
  have eq: "get now sid fn w = pcatch (destroy sid fn w) (\<lambda>e. invoke fn [e])"
    using assms by (rule expired_get_unfold)
  show "docs (snd (get now sid fn w)) = AList.delete (cleanRef sid) (docs w)"
    using assms(1) by (simp add: eq docs_pcatch destroy_ok(1))
  obtain r1 where r1: "calls (snd (destroy sid fn w)) = calls w @ [ack w] # r1"
    using destroy_ok(2) [OF assms(1)] by blast
  obtain r2 where r2: "calls (snd (get now sid fn w)) = calls (snd (destroy sid fn w)) @ r2"
    using calls_pcatch_prefix [of "destroy sid fn w" fn] by (auto simp: eq)
  from r1 r2 show "\<exists>rest. calls (snd (get now sid fn w)) = calls w @ [ack w] # rest"
    by simp
qed

text \<open>
  C1. The claim: a \<open>get\<close> of a session id whose stored record has \<open>expires < now\<close>
  deletes the record and reports no session to the caller exactly as for a record that is
  not found, with the same callback arguments. The code deletes the record, and then misses
  the report: \<open>get\<close> hands the expired case to \<open>destroy\<close>, whose \<^verbatim>\<open>.then(fn)\<close> runs the
  callback on the value the backend's delete resolved with, in the place of the error of
  an error-first callback, where the not-found path of the same function runs \<^verbatim>\<open>fn()\<close>.
  On a backend whose delete resolves with a write result, as the Firestore client of
  \<^verbatim>\<open>firebase-admin\<close> does, a \<open>get\<close> at time 3000 of the record \<open>abc\<close> that expired at 2000
  removes the record and runs the callback on that write result; a \<open>get\<close> of the missing
  \<open>zzz\<close> runs it without arguments.
\<close>

theorem get_expired_reports_write_result:
  "docs (snd (get 3000 ''abc'' fn_ok store2)) = []
   \<and> calls (snd (get 3000 ''abc'' fn_ok store2)) = [[JObj [(''writeTime'', JNum 3000)]]]
   \<and> calls (snd (get 3000 ''zzz'' fn_ok store2)) = [[]]
   \<and> cb_arg [JObj [(''writeTime'', JNum 3000)]] 0 \<noteq> cb_arg [] 0"
  by (simp add: store2_def doc1_def fn_ok_def disallowed_def cb_arg_def
      get_def destroy_def doc_get_def doc_delete_def request_def pthen_def pcatch_def invoke_def)

subsection \<open>Sweeping: \<open>reap\<close>\<close>

lemma doc_delete_other:
  "k \<noteq> key \<Longrightarrow> map_of (docs (snd (doc_delete key w))) k = map_of (docs w) k"
  by (simp add: doc_delete_def request_def split: list.splits option.splits)

lemma doc_delete_sub:
  "map_of (docs (snd (doc_delete key w))) k = Some d \<Longrightarrow> map_of (docs w) k = Some d"
  by (cases "k = key")
     (auto simp add: doc_delete_def request_def delete_conv' split: list.splits option.splits)

lemma delete_each_other:
  "k \<notin> fst ` set snapshots \<Longrightarrow>
   map_of (docs (snd (delete_each snapshots w))) k = map_of (docs w) k"
proof (induction snapshots arbitrary: w)
  case Nil
  then show ?case by simp
next
  case (Cons snapshot snapshots)
  obtain r w' where d: "doc_delete (fst snapshot) w = (r, w')"
    by (cases "doc_delete (fst snapshot) w")
  from Cons.prems have "k \<noteq> fst snapshot" and rest: "k \<notin> fst ` set snapshots" by auto
  then have "map_of (docs w') k = map_of (docs w) k"
    using doc_delete_other [of k "fst snapshot" w] d by simp
  with Cons.IH [OF rest, of w'] d show ?case by (auto split: prod.splits)
qed

lemma delete_each_sub:
  "map_of (docs (snd (delete_each snapshots w))) k = Some d \<Longrightarrow> map_of (docs w) k = Some d"
proof (induction snapshots arbitrary: w)
  case Nil
  then show ?case by simp
next
  case (Cons snapshot snapshots)
  obtain r w' where d: "doc_delete (fst snapshot) w = (r, w')"
    by (cases "doc_delete (fst snapshot) w")
  with Cons.prems have "map_of (docs (snd (delete_each snapshots w'))) k = Some d"
    by (auto split: prod.splits)
  then have "map_of (docs w') k = Some d" by (rule Cons.IH)
  with d doc_delete_sub [of "fst snapshot" w k d] show ?case by simp
qed

lemma delete_each_ok:
  "faults w = [] \<Longrightarrow>
   map_of (docs (snd (delete_each snapshots w))) k =
     (if k \<in> fst ` set snapshots then None else map_of (docs w) k)"
proof (induction snapshots arbitrary: w)
  case Nil
  then show ?case by simp
next
  case (Cons snapshot snapshots)
  let ?w' = "w\<lparr>docs := AList.delete (fst snapshot) (docs w)\<rparr>"
  from Cons.prems have d: "doc_delete (fst snapshot) w = (Fulfilled (ack w), ?w')"
    by (simp add: doc_delete_def request_def)
  from Cons.prems have "faults ?w' = []" by simp
  then have "map_of (docs (snd (delete_each snapshots ?w'))) k =
               (if k \<in> fst ` set snapshots then None else map_of (docs ?w') k)"
    by (rule Cons.IH)
  moreover have "map_of (docs ?w') k = (if k = fst snapshot then None else map_of (docs w) k)"
    by (simp add: delete_conv')
  moreover have "snd (delete_each (snapshot # snapshots) w) = snd (delete_each snapshots ?w')"
    using d by (simp split: prod.splits)
  ultimately show ?case by (simp add: delete_conv')
qed

lemma docs_remove_all:
  "docs (snd (remove_all snapshots fn w)) = docs (snd (delete_each snapshots w))"
proof -
  obtain remove w' where d: "delete_each snapshots w = (remove, w')"
    by (cases "delete_each snapshots w")
  have "docs (snd (pcatch (pthen (promise_all remove, w') (\<lambda>vs. invoke fn [JArr vs]))
                (\<lambda>e. invoke fn [e]))) = docs w'"
    by (cases "promise_all remove") (auto simp: pcatch_def pthen_def invoke_def split: outcome.splits)
  with d show ?thesis by (simp add: remove_all_def)
qed

lemma docs_request: "docs (snd (request w)) = docs w"
  by (simp add: request_def split: list.splits)

lemma docs_reap:
  "docs (snd (reap now fn w)) =
     (case request w of
        (Some e, w') \<Rightarrow> docs w
      | (None, w') \<Rightarrow> docs (snd (delete_each (filter (\<lambda>(key, d). expires d < now) (docs w)) w')))"
  by (simp add: reap_def docs_pcatch collection_where_expires_lt_def pthen_def docs_remove_all
      docs_request [of w, symmetric] split: prod.splits option.splits)

text \<open>
  The collection holds one record per key: no operation of the store makes a key occur
  twice, whatever the backend and the callback do.
\<close>

lemma keys_doc_get: "docs (snd (doc_get key w)) = docs w"
  by (simp add: doc_get_def request_def split: list.splits option.splits)

lemma keys_doc_set:
  "distinct (map fst (docs w)) \<Longrightarrow> distinct (map fst (docs (snd (doc_set key d w))))"
  by (simp add: doc_set_def request_def distinct_update split: list.splits option.splits)

lemma keys_doc_delete:
  "distinct (map fst (docs w)) \<Longrightarrow> distinct (map fst (docs (snd (doc_delete key w))))"
  by (simp add: doc_delete_def request_def distinct_delete split: list.splits option.splits)

lemma keys_delete_each:
  "distinct (map fst (docs w)) \<Longrightarrow> distinct (map fst (docs (snd (delete_each snapshots w))))"
proof (induction snapshots arbitrary: w)
  case Nil
  then show ?case by simp
next
  case (Cons snapshot snapshots)
  obtain r w' where d: "doc_delete (fst snapshot) w = (r, w')"
    by (cases "doc_delete (fst snapshot) w")
  with Cons.prems keys_doc_delete [of w "fst snapshot"] have "distinct (map fst (docs w'))"
    by simp
  then have "distinct (map fst (docs (snd (delete_each snapshots w'))))" by (rule Cons.IH)
  with d show ?case by (auto split: prod.splits)
qed

lemma docs_chain:
  "docs (snd (pcatch (pthen p h) (\<lambda>e. invoke fn [e]))) =
     (case p of (Fulfilled x, w1) \<Rightarrow> docs (snd (h x w1)) | (Rejected e, w1) \<Rightarrow> docs w1)"
  by (simp add: docs_pcatch pthen_def split: prod.splits outcome.splits)

lemma keys_destroy:
  "distinct (map fst (docs w)) \<Longrightarrow> distinct (map fst (docs (snd (destroy sid fn w))))"
  by (simp add: destroy_def docs_report keys_doc_delete)

lemma keys_set_op:
  "distinct (map fst (docs w)) \<Longrightarrow> distinct (map fst (docs (snd (set_op now sid sess fn w))))"
  by (simp add: set_op_def docs_report keys_doc_set)

lemma keys_get:
  assumes "distinct (map fst (docs w))"
  shows "distinct (map fst (docs (snd (get now sid fn w))))"
proof (cases "doc_get (cleanRef sid) w")
  case (Pair r w1)
  with keys_doc_get [of "cleanRef sid" w] assms have "distinct (map fst (docs w1))" by simp
  with Pair show ?thesis
    by (simp add: get_def docs_chain docs_invoke keys_destroy split: outcome.splits option.splits)
qed

lemma keys_touch:
  assumes "distinct (map fst (docs w))"
  shows "distinct (map fst (docs (snd (touch now sid sess fn w))))"
proof (cases "doc_get (cleanRef sid) w")
  case (Pair r w1)
  with keys_doc_get [of "cleanRef sid" w] assms have "distinct (map fst (docs w1))" by simp
  with Pair show ?thesis
    by (simp add: touch_def docs_chain docs_invoke keys_set_op split: outcome.splits option.splits)
qed

lemma keys_clear:
  assumes "distinct (map fst (docs w))"
  shows "distinct (map fst (docs (snd (clear fn w))))"
proof (cases "collection_get w")
  case (Pair r w1)
  then have "docs w1 = docs w"
    by (auto simp add: collection_get_def request_def split: list.splits option.splits)
  with assms have "distinct (map fst (docs w1))" by simp
  with Pair show ?thesis
    by (simp add: clear_def docs_chain docs_remove_all keys_delete_each split: outcome.splits)
qed

lemma keys_reap:
  assumes "distinct (map fst (docs w))"
  shows "distinct (map fst (docs (snd (reap now fn w))))"
proof (cases "collection_where_expires_lt now w")
  case (Pair r w1)
  then have "docs w1 = docs w"
    by (auto simp add: collection_where_expires_lt_def request_def split: list.splits option.splits)
  with assms have "distinct (map fst (docs w1))" by simp
  with Pair show ?thesis
    by (simp add: reap_def docs_chain docs_remove_all keys_delete_each split: outcome.splits)
qed

lemma expired_keys:
  assumes "distinct (map fst ds)" and "map_of ds k = Some d"
  shows "k \<in> fst ` set (filter (\<lambda>(key, d). expires d < now) ds) \<longleftrightarrow> expires d < now"
proof
  assume "k \<in> fst ` set (filter (\<lambda>(key, d). expires d < now) ds)"
  then obtain d' where in_ds: "(k, d') \<in> set ds" and old: "expires d' < now" by auto
  from assms(1) in_ds have "map_of ds k = Some d'" by simp
  with assms(2) old show "expires d < now" by simp
next
  assume "expires d < now"
  moreover from assms(2) have "(k, d) \<in> set ds" by (rule map_of_SomeD)
  ultimately show "k \<in> fst ` set (filter (\<lambda>(key, d). expires d < now) ds)" by force
qed

text \<open>
  C4. In a collection that holds one record per key, \<open>reap\<close> at time \<open>now\<close> leaves every
  record whose \<open>expires\<close> is not below \<open>now\<close> as it is, whatever the backend does with
  the requests, and creates none; on a backend that accepts the requests every record
  whose \<open>expires\<close> is below \<open>now\<close> is absent afterwards.
\<close>

theorem reap_sweeps:
  assumes "distinct (map fst (docs w))"
  shows "(\<forall>k d. map_of (docs w) k = Some d \<and> \<not> expires d < now \<longrightarrow>
            map_of (docs (snd (reap now fn w))) k = Some d)
         \<and> (\<forall>k. map_of (docs w) k = None \<longrightarrow> map_of (docs (snd (reap now fn w))) k = None)
         \<and> (faults w = [] \<longrightarrow>
              (\<forall>k d. map_of (docs w) k = Some d \<and> expires d < now \<longrightarrow>
                 map_of (docs (snd (reap now fn w))) k = None))"
proof (intro conjI allI impI)
  fix k d
  assume "map_of (docs w) k = Some d \<and> \<not> expires d < now"
  then have k: "map_of (docs w) k = Some d" and valid: "\<not> expires d < now" by simp_all
  from expired_keys [OF assms k, of now] valid
  have notin: "k \<notin> fst ` set (filter (\<lambda>(key, d). expires d < now) (docs w))" by simp
  show "map_of (docs (snd (reap now fn w))) k = Some d"
  proof (cases "request w")
    case (Pair f w')
    with docs_request [of w] have same: "docs w' = docs w" by simp
    show ?thesis
    proof (cases f)
      case None
      with Pair same k delete_each_other [OF notin, of w'] show ?thesis
        by (simp add: docs_reap)
    next
      case (Some e)
      with Pair k show ?thesis by (simp add: docs_reap)
    qed
  qed
next
  fix k
  assume none: "map_of (docs w) k = None"
  show "map_of (docs (snd (reap now fn w))) k = None"
  proof (cases "request w")
    case (Pair f w')
    with docs_request [of w] have same: "docs w' = docs w" by simp
    show ?thesis
    proof (cases f)
      case None
      have "map_of (docs (snd (reap now fn w))) k \<noteq> Some d" for d
        using delete_each_sub [of "filter (\<lambda>(key, d). expires d < now) (docs w)" w' k d]
          Pair None same none by (auto simp add: docs_reap)
      then show ?thesis by (cases "map_of (docs (snd (reap now fn w))) k") auto
    next
      case (Some e)
      with Pair none show ?thesis by (simp add: docs_reap)
    qed
  qed
next
  fix k d
  assume nofault: "faults w = []"
    and "map_of (docs w) k = Some d \<and> expires d < now"
  then have k: "map_of (docs w) k = Some d" and old: "expires d < now" by simp_all
  from expired_keys [OF assms k, of now] old
  have "k \<in> fst ` set (filter (\<lambda>(key, d). expires d < now) (docs w))" by simp
  with nofault delete_each_ok [OF nofault, of "filter (\<lambda>(key, d). expires d < now) (docs w)" k]
  show "map_of (docs (snd (reap now fn w))) k = None"
    by (simp add: docs_reap request_def)
qed

theorem reap_sweeps_witness:
  "distinct (map fst (docs storeAB))
   \<and> map_of (docs storeAB) ''A'' = Some docA \<and> expires docA < 1000
   \<and> map_of (docs storeAB) ''B'' = Some docB \<and> \<not> expires docB < 1000
   \<and> map_of (docs storeAB) ''C'' = None
   \<and> faults storeAB = []
   \<and> map_of (docs (snd (reap 1000 fn_ok storeAB))) ''A'' = None
   \<and> map_of (docs (snd (reap 1000 fn_ok storeAB))) ''B'' = Some docB
   \<and> map_of (docs (snd (reap 1000 fn_ok storeAB))) ''C'' = None"
  using reap_sweeps [of storeAB 1000 fn_ok]
  by (simp add: storeAB_def docA_def docB_def)

subsection \<open>How often the callback runs\<close>

lemma calls_request: "calls (snd (request w)) = calls w"
  by (simp add: request_def split: list.splits)







lemma completes_invoke: "completes fn 0 w (invoke fn args w)"
  by (simp add: invoke_def)

lemma completes_mono: "completes fn k w r \<Longrightarrow> k \<le> k' \<Longrightarrow> completes fn k' w r"
  by (meson le_trans)













end
